theory Spec2Isabelle
  imports Main
begin

section \<open>The Brew plugin of dotbot-brew (src/brew.py)\<close>

text \<open>
  The plugin maps a directive and a list of names to a sequence of shell commands.
  Everything outside the plugin is made explicit:
  \<^item> the shell is a function from the invocations already made and the invocation being
    made to what the operating system does with it (the process exits with a status, or no
    process can be started), so that a command may succeed or fail depending on what ran
    before it (\<open>hash brew\<close> after a bootstrap, say);
  \<^item> the effects of the plugin are the list of invocations it made and the log lines it
    wrote, both carried in a \<open>world\<close> that every operation returns updated;
  \<^item> an exception is a value \<open>Inl e\<close>; the world is returned beside it, since what ran
    before a \<open>raise\<close> stays done.
\<close>

subsection \<open>Python's string conversions\<close>

text \<open>
  Decimal rendering of an exit status (\<open>%d\<close>). Exit statuses are naturals: the death of
  the shell itself by a signal, which Python reports as a negative return code, is left out.
\<close>

fun str_nat :: "nat \<Rightarrow> string" where
  "str_nat n =
     (if n < 10 then [char_of (48 + n)]
      else str_nat (n div 10) @ [char_of (48 + n mod 10)])"

declare str_nat.simps [simp del]

definition hex_digit :: "nat \<Rightarrow> char" where
  "hex_digit n = (if n < 10 then char_of (48 + n) else char_of (87 + n))"

text \<open>
  \<open>repr\<close> of a string: single quotes, unless the string holds a single quote and no double
  quote; the quote in use and the backslash are escaped, tab, newline and carriage return
  are written \<open>\t\<close>, \<open>\n\<close>, \<open>\r\<close> and the other control characters \<open>\xhh\<close>.
  Characters are bytes here, so the model covers ASCII strings.
\<close>

definition repr_char :: "char \<Rightarrow> char \<Rightarrow> string" where
  "repr_char q c =
     (if c = q \<or> c = CHR 0x5C then [CHR 0x5C, c]
      else if c = CHR 0x09 then [CHR 0x5C, CHR ''t'']
      else if c = CHR 0x0A then [CHR 0x5C, CHR ''n'']
      else if c = CHR 0x0D then [CHR 0x5C, CHR ''r'']
      else if of_char c < (32::nat) \<or> of_char c = (127::nat)
        then [CHR 0x5C, CHR ''x'', hex_digit (of_char c div 16), hex_digit (of_char c mod 16)]
      else [c])"

definition repr_str :: "string \<Rightarrow> string" where
  "repr_str s =
     (let q = (if CHR 0x27 \<in> set s \<and> CHR 0x22 \<notin> set s then CHR 0x22 else CHR 0x27)
      in [q] @ concat (map (repr_char q) s) @ [q])"

fun join :: "string \<Rightarrow> string list \<Rightarrow> string" where
  "join sep [] = []"
| "join sep [x] = x"
| "join sep (x # y # ys) = x @ sep @ join sep (y # ys)"

text \<open>\<open>str\<close> of a dictionary of strings, which is what an f-string writes for it.\<close>

definition str_dict :: "(string \<times> string) list \<Rightarrow> string" where
  "str_dict d =
     ''{'' @ join '', '' (map (\<lambda>(k, v). repr_str k @ '': '' @ repr_str v) d) @ ''}''"

subsection \<open>Exceptions, invocations, the log\<close>

text \<open>
  \<open>CalledProcessError cmd rc\<close> is what \<open>subprocess.run(..., check=True)\<close> raises on a
  non-zero exit status. \<open>ValueError\<close> is raised by \<open>handle\<close> itself, and by
  \<open>subprocess.run\<close> for a command that holds a NUL byte (\<open>embedded null byte\<close>).
  \<open>OSError\<close> stands for what \<open>subprocess.run\<close> raises when no process can be started:
  FileNotFoundError for a working directory that does not exist, and its siblings.
\<close>

datatype exn = ValueError string | CalledProcessError string nat | OSError string

definition str_exn :: "string \<Rightarrow> nat \<Rightarrow> string" where
  "str_exn cmd rc =
     ''Command '' @ [CHR 0x27] @ cmd @ [CHR 0x27] @ '' returned non-zero exit status ''
       @ str_nat rc @ ''.''"

datatype level = Lowinfo | Info | Warning | Error

record invocation =
  shell_cmd :: string
  capture_output :: bool
  cwd :: string

record world =
  invocations :: "invocation list"
  log :: "(level \<times> string) list"

text \<open>
  What the operating system does with an invocation: the process runs and exits with a
  status, or it cannot be started. The invocations of a world are the processes that ran.
\<close>

datatype outcome = Exit nat | Spawn_failed string

type_synonym shell = "invocation list \<Rightarrow> invocation \<Rightarrow> outcome"

definition logw :: "level \<Rightarrow> string \<Rightarrow> world \<Rightarrow> world" where
  "logw l m w = w\<lparr>log := log w @ [(l, m)]\<rparr>"

subsection \<open>Class attributes (lines 7-32)\<close>

definition brew_directive :: string where "brew_directive = ''brew''"
definition brewfile_directive :: string where "brewfile_directive = ''brewfile''"
definition cask_directive :: string where "cask_directive = ''cask''"
definition tap_directive :: string where "tap_directive = ''tap''"
definition install_url :: string where
  "install_url = ''https://raw.githubusercontent.com/Homebrew/install/HEAD/install.sh''"

text \<open>
  The class body reads the platform once. On a platform that is neither \<open>darwin\<close> nor
  \<open>linux\<close> neither branch runs and the dictionary of line 25 raises a NameError: the class
  does not exist (\<open>None\<close>). \<open>base_directory\<close> is the host's context.
\<close>

record plugin =
  is_macos :: bool
  homebrew_path :: string
  base_directory :: string

definition Brew :: "string \<Rightarrow> string \<Rightarrow> string \<Rightarrow> plugin option" where
  "Brew sys_platform machine base =
     (if sys_platform = ''darwin'' then
        Some \<lparr>is_macos = True,
              homebrew_path = (if machine = ''arm64'' then ''/opt/homebrew'' else ''/usr/local''),
              base_directory = base\<rparr>
      else if sys_platform = ''linux'' then
        Some \<lparr>is_macos = False,
              homebrew_path = ''/home/linuxbrew/.linuxbrew'',
              base_directory = base\<rparr>
      else None)"

definition homebrew_envs :: "string \<Rightarrow> (string \<times> string) list" where
  "homebrew_envs p =
     [(''HOMEBREW_PREFIX'', p),
      (''HOMEBREW_CELLAR'', p @ ''/Cellar''),
      (''HOMEBREW_REPOSITORY'', p),
      (''PATH'', p @ ''/bin:'' @ p @ ''/sbin${PATH+:$PATH}''),
      (''MANPATH'', p @ ''/share/man${MANPATH+:$MANPATH}:''),
      (''INFOPATH'', p @ ''/share/info:${INFOPATH:-}'')]"

subsection \<open>can_handle (lines 34-44)\<close>

definition can_handle :: "plugin \<Rightarrow> string \<Rightarrow> bool" where
  "can_handle self directive =
     (let directives = [tap_directive, brew_directive, brewfile_directive];
          directives = (if is_macos self then directives @ [cask_directive] else directives)
      in directive \<in> set directives)"

subsection \<open>_run_cmd (lines 69-79)\<close>

definition env_prefix :: "plugin \<Rightarrow> string" where
  \<open>env_prefix self = ''eval "$('' @ str_dict (homebrew_envs (homebrew_path self)) @ '')" && ''\<close>

text \<open>
  The command is logged first. \<open>subprocess.run\<close> then refuses a command with a NUL byte
  before any process is started; otherwise the operating system decides (a working
  directory that does not exist is a process that cannot be started). The working directory
  is a path the host got from the operating system, so it holds no NUL byte itself. None of
  the \<open>except\<close> clauses of the plugin catches anything but CalledProcessError.
\<close>

definition run_cmd ::
  "plugin \<Rightarrow> shell \<Rightarrow> string \<Rightarrow> bool \<Rightarrow> bool \<Rightarrow> world \<Rightarrow> (exn + unit) \<times> world" where
  "run_cmd self sh cmd capture include_envs w =
     (let cmd = (if include_envs then env_prefix self @ cmd else cmd);
          w = logw Lowinfo cmd w;
          i = \<lparr>shell_cmd = cmd, capture_output = capture, cwd = base_directory self\<rparr>
      in if CHR 0x00 \<in> set cmd then (Inl (ValueError ''embedded null byte''), w)
         else case sh (invocations w) i of
                Spawn_failed m \<Rightarrow> (Inl (OSError m), w)
              | Exit rc \<Rightarrow>
                  (if rc = 0 then Inr () else Inl (CalledProcessError cmd rc),
                   w\<lparr>invocations := invocations w @ [i]\<rparr>))"

subsection \<open>_bootstrap_brew (lines 81-93)\<close>

definition install_script :: string where
  \<open>install_script = ''/bin/bash -c "$(curl -fsSL '' @ install_url @ '')"''\<close>

definition bootstrap_brew :: "plugin \<Rightarrow> shell \<Rightarrow> world \<Rightarrow> (exn + unit) \<times> world" where
  "bootstrap_brew self sh w =
     (case run_cmd self sh install_script True False w of
        (Inl (CalledProcessError c rc), w) \<Rightarrow>
          (Inr (), logw Warning ''Brew could not be installed'' w)
      | (Inl e, w) \<Rightarrow> (Inl e, w)
      | (Inr u, w) \<Rightarrow>
          (case run_cmd self sh ''brew update'' True True (logw Info ''Updating brew'' w) of
             (Inl (CalledProcessError c rc), w) \<Rightarrow>
               (Inr (), logw Warning ''Brew could not be updated'' w)
           | (Inl e, w) \<Rightarrow> (Inl e, w)
           | (Inr u, w) \<Rightarrow> (Inr (), w)))"

subsection \<open>_tap (lines 95-103)\<close>

text \<open>The command of line 99.\<close>

definition tap_cmd :: "string \<Rightarrow> string" where
  "tap_cmd t = ''brew tap '' @ t"

fun tap :: "plugin \<Rightarrow> shell \<Rightarrow> string list \<Rightarrow> world \<Rightarrow> (exn + bool) \<times> world" where
  "tap self sh [] w = (Inr True, w)"
| "tap self sh (t # tap_list) w =
     (case run_cmd self sh (tap_cmd t) True True (logw Info (''Tapping '' @ t) w) of
        (Inl (CalledProcessError c rc), w) \<Rightarrow>
          (Inr False, logw Warning (''Failed to tap ['' @ t @ ''] - '' @ str_exn c rc) w)
      | (Inl e, w) \<Rightarrow> (Inl e, w)
      | (Inr u, w) \<Rightarrow> tap self sh tap_list w)"

subsection \<open>_install (lines 114-126)\<close>

definition cask_flag :: "string \<Rightarrow> string" where
  "cask_flag install_cmd = (if install_cmd \<noteq> ''brew install'' then ''--cask'' else '''')"

text \<open>The commands of lines 118 and 122.\<close>

definition query_cmd :: "string \<Rightarrow> string \<Rightarrow> string" where
  "query_cmd install_cmd package =
     ''brew ls --versions '' @ cask_flag install_cmd @ '' '' @ package"

definition install_pkg_cmd :: "string \<Rightarrow> string \<Rightarrow> string" where
  "install_pkg_cmd install_cmd package =
     install_cmd @ '' '' @ cask_flag install_cmd @ '' '' @ package"

fun install :: "plugin \<Rightarrow> shell \<Rightarrow> string \<Rightarrow> string list \<Rightarrow> world \<Rightarrow> (exn + bool) \<times> world" where
  "install self sh install_cmd [] w = (Inr True, w)"
| "install self sh install_cmd (package # packages_list) w =
     (case run_cmd self sh (query_cmd install_cmd package) True True w of
        (Inl (CalledProcessError c rc), w) \<Rightarrow>
          (case run_cmd self sh (install_pkg_cmd install_cmd package) True True
                  (logw Info (''Installing '' @ package) w) of
             (Inl (CalledProcessError c rc), w) \<Rightarrow>
               (Inr False,
                logw Warning (''Failed to install ['' @ package @ ''] - '' @ str_exn c rc) w)
           | (Inl e, w) \<Rightarrow> (Inl e, w)
           | (Inr u, w) \<Rightarrow> install self sh install_cmd packages_list w)
      | (Inl e, w) \<Rightarrow> (Inl e, w)
      | (Inr u, w) \<Rightarrow> install self sh install_cmd packages_list w)"

subsection \<open>_process_data (lines 105-112)\<close>

text \<open>The substring test \<open>"--cask" in install_cmd\<close>.\<close>

fun contains :: "string \<Rightarrow> string \<Rightarrow> bool" where
  "contains sub [] = (sub = [])"
| "contains sub (c # cs) = (take (length sub) (c # cs) = sub \<or> contains sub cs)"

definition process_data ::
  "plugin \<Rightarrow> shell \<Rightarrow> string \<Rightarrow> string list \<Rightarrow> world \<Rightarrow> (exn + bool) \<times> world" where
  "process_data self sh install_cmd data w =
     (let install_type = (if contains ''--cask'' install_cmd then ''casks'' else ''formulae'')
      in case install self sh install_cmd data w of
           (Inl e, w) \<Rightarrow> (Inl e, w)
         | (Inr success, w) \<Rightarrow>
             (Inr success,
              if success
              then logw Info (''All brew '' @ install_type @ '' have been installed'') w
              else logw Error (''Some brew '' @ install_type @ '' were not installed'') w))"

subsection \<open>_install_bundle (lines 128-136)\<close>

text \<open>The command of line 132.\<close>

definition bundle_cmd :: "string \<Rightarrow> string" where
  "bundle_cmd brew_file = ''brew bundle --file='' @ brew_file"

fun install_bundle :: "plugin \<Rightarrow> shell \<Rightarrow> string list \<Rightarrow> world \<Rightarrow> (exn + bool) \<times> world" where
  "install_bundle self sh [] w = (Inr True, w)"
| "install_bundle self sh (brew_file # brew_files) w =
     (case run_cmd self sh (bundle_cmd brew_file) True True
             (logw Info (''Installing from file '' @ brew_file) w) of
        (Inl (CalledProcessError c rc), w) \<Rightarrow>
          (Inr False,
           logw Warning (''Failed to install file ['' @ brew_file @ ''] - '' @ str_exn c rc) w)
      | (Inl e, w) \<Rightarrow> (Inl e, w)
      | (Inr u, w) \<Rightarrow> install_bundle self sh brew_files w)"

subsection \<open>handle (lines 46-67)\<close>

text \<open>
  \<open>handle\<close> returns what the handler returns, or \<open>None\<close> when no case of the \<open>match\<close>
  applies. It is written in the three steps of the source: the check for the binary
  with the bootstrap (lines 50-54), the required tap on macOS (lines 56-57, a call
  outside any \<open>try\<close>) and the \<open>match\<close> (lines 59-67).
\<close>

definition some_result :: "(exn + bool) \<times> world \<Rightarrow> (exn + bool option) \<times> world" where
  "some_result r = (case r of (Inl e, w) \<Rightarrow> (Inl e, w) | (Inr b, w) \<Rightarrow> (Inr (Some b), w))"

definition ensure_brew :: "plugin \<Rightarrow> shell \<Rightarrow> world \<Rightarrow> (exn + unit) \<times> world" where
  "ensure_brew self sh w =
     (case run_cmd self sh ''hash brew'' False True w of
        (Inl (CalledProcessError c rc), w) \<Rightarrow>
          bootstrap_brew self sh (logw Info ''Brew not found, installing'' w)
      | (Inl e, w) \<Rightarrow> (Inl e, w)
      | (Inr u, w) \<Rightarrow> (Inr (), w))"

definition required_tap :: "plugin \<Rightarrow> shell \<Rightarrow> world \<Rightarrow> (exn + unit) \<times> world" where
  "required_tap self sh w =
     (if is_macos self then run_cmd self sh ''brew tap homebrew/cask'' True True w
      else (Inr (), w))"

definition dispatch ::
  "plugin \<Rightarrow> shell \<Rightarrow> string \<Rightarrow> string list \<Rightarrow> world \<Rightarrow> (exn + bool option) \<times> world" where
  "dispatch self sh directive data w =
     (if directive = tap_directive then some_result (tap self sh data w)
      else if directive = brew_directive
        then some_result (process_data self sh ''brew install'' data w)
      else if directive = cask_directive
        then some_result (process_data self sh ''brew install --cask'' data w)
      else if directive = brewfile_directive then some_result (install_bundle self sh data w)
      else (Inr None, w))"

definition handle ::
  "plugin \<Rightarrow> shell \<Rightarrow> string \<Rightarrow> string list \<Rightarrow> world \<Rightarrow> (exn + bool option) \<times> world" where
  "handle self sh directive data w =
     (if \<not> can_handle self directive
      then (Inl (ValueError (''Brew cannot handle directive '' @ directive)), w)
      else
        case ensure_brew self sh w of
          (Inl e, w) \<Rightarrow> (Inl e, w)
        | (Inr u, w) \<Rightarrow>
            (case required_tap self sh w of
               (Inl e, w) \<Rightarrow> (Inl e, w)
             | (Inr u, w) \<Rightarrow> dispatch self sh directive data w))"

subsection \<open>Vocabulary of the statements\<close>

text \<open>
  \<open>invoke self cmd\<close> is the invocation that \<open>_run_cmd(cmd)\<close> makes with its default
  arguments, \<open>logged self cmd w\<close> the world once the command is logged, and
  \<open>ran self cmd w\<close> the world after the process ran: the command is logged at the
  low-priority level and the invocation is appended.
\<close>

definition invoke :: "plugin \<Rightarrow> string \<Rightarrow> invocation" where
  "invoke self cmd =
     \<lparr>shell_cmd = env_prefix self @ cmd, capture_output = True, cwd = base_directory self\<rparr>"

definition logged :: "plugin \<Rightarrow> string \<Rightarrow> world \<Rightarrow> world" where
  "logged self cmd w = w\<lparr>log := log w @ [(Lowinfo, env_prefix self @ cmd)]\<rparr>"

definition ran :: "plugin \<Rightarrow> string \<Rightarrow> world \<Rightarrow> world" where
  "ran self cmd w =
     w\<lparr>log := log w @ [(Lowinfo, env_prefix self @ cmd)],
       invocations := invocations w @ [invoke self cmd]\<rparr>"

text \<open>
  The exit status of an invocation made after the invocations \<open>h\<close>, when a process runs
  at all. An invocation succeeds when it exits with 0 and fails when it exits with another
  status: these are the two cases of \<open>check=True\<close>.
\<close>

definition status :: "shell \<Rightarrow> invocation list \<Rightarrow> invocation \<Rightarrow> nat option" where
  "status sh h i =
     (if CHR 0x00 \<in> set (shell_cmd i) then None
      else case sh h i of Exit rc \<Rightarrow> Some rc | Spawn_failed m \<Rightarrow> None)"

definition succeeds :: "shell \<Rightarrow> invocation list \<Rightarrow> invocation \<Rightarrow> bool" where
  "succeeds sh h i = (status sh h i = Some 0)"

definition fails :: "shell \<Rightarrow> invocation list \<Rightarrow> invocation \<Rightarrow> bool" where
  "fails sh h i = (case status sh h i of None \<Rightarrow> False | Some rc \<Rightarrow> rc \<noteq> 0)"

text \<open>
  The invocations of a run. For taps and bundle files there is one invocation for each
  item. For packages each item has its version query, followed by its install command when
  the query did not exit with 0 after the invocations before it.
\<close>

definition tap_invs :: "plugin \<Rightarrow> string list \<Rightarrow> invocation list" where
  "tap_invs self ts = map (\<lambda>t. invoke self (tap_cmd t)) ts"

definition bundle_invs :: "plugin \<Rightarrow> string list \<Rightarrow> invocation list" where
  "bundle_invs self fs = map (\<lambda>f. invoke self (bundle_cmd f)) fs"

fun install_invs ::
  "plugin \<Rightarrow> shell \<Rightarrow> string \<Rightarrow> invocation list \<Rightarrow> string list \<Rightarrow> invocation list" where
  "install_invs self sh c h [] = h"
| "install_invs self sh c h (p # ps) =
     (if succeeds sh h (invoke self (query_cmd c p))
      then install_invs self sh c (h @ [invoke self (query_cmd c p)]) ps
      else install_invs self sh c
             (h @ [invoke self (query_cmd c p), invoke self (install_pkg_cmd c p)]) ps)"

text \<open>
  A package succeeds after \<open>h\<close> when its version query succeeds, or the query fails and
  the install command then succeeds; it fails when both fail.
\<close>

definition package_succeeds ::
  "plugin \<Rightarrow> shell \<Rightarrow> string \<Rightarrow> invocation list \<Rightarrow> string \<Rightarrow> bool" where
  "package_succeeds self sh c h p =
     (succeeds sh h (invoke self (query_cmd c p)) \<or>
      fails sh h (invoke self (query_cmd c p)) \<and>
      succeeds sh (h @ [invoke self (query_cmd c p)]) (invoke self (install_pkg_cmd c p)))"

definition package_fails ::
  "plugin \<Rightarrow> shell \<Rightarrow> string \<Rightarrow> invocation list \<Rightarrow> string \<Rightarrow> bool" where
  "package_fails self sh c h p =
     (fails sh h (invoke self (query_cmd c p)) \<and>
      fails sh (h @ [invoke self (query_cmd c p)]) (invoke self (install_pkg_cmd c p)))"

text \<open>
  What holds of every operation but \<open>_run_cmd\<close> itself: it only adds invocations, and
  no CalledProcessError leaves it.
\<close>

definition contained :: "world \<Rightarrow> (exn + 'a) \<times> world \<Rightarrow> bool" where
  "contained w r =
     (length (invocations w) \<le> length (invocations (snd r)) \<and>
      (case fst r of Inl (CalledProcessError c rc) \<Rightarrow> False | _ \<Rightarrow> True))"

text \<open>
  Concrete hosts and shells for the examples: the plugin as the class body builds it on
  an Apple-silicon Mac and on Linux, a world in which nothing has run, a shell on which
  exactly the listed command lines fail (with status 1), and a shell without the package
  manager and without network, on which every command fails.
\<close>

definition macos_arm64 :: plugin where
  "macos_arm64 =
     \<lparr>is_macos = True, homebrew_path = ''/opt/homebrew'', base_directory = ''/dotfiles''\<rparr>"

definition linux_host :: plugin where
  "linux_host =
     \<lparr>is_macos = False, homebrew_path = ''/home/linuxbrew/.linuxbrew'',
      base_directory = ''/dotfiles''\<rparr>"

definition fresh :: world where
  "fresh = \<lparr>invocations = [], log = []\<rparr>"

definition sh_fails_on :: "string list \<Rightarrow> shell" where
  "sh_fails_on cmds h i = (if shell_cmd i \<in> set cmds then Exit 1 else Exit 0)"

definition sh_nothing_works :: shell where
  "sh_nothing_works h i = Exit 127"

definition sh_item_fails :: shell where
  "sh_item_fails =
     sh_fails_on (map (\<lambda>c. env_prefix linux_host @ c)
       [tap_cmd ''b'', query_cmd ''brew install'' ''curl'',
        install_pkg_cmd ''brew install'' ''curl'', bundle_cmd ''Brewfile.b''])"

definition single_quoted :: "string \<Rightarrow> string" where
  "single_quoted s = [CHR 0x27] @ s @ [CHR 0x27]"

section \<open>Basic facts about the operations\<close>

lemma invocations_logw [simp]: "invocations (logw l m w) = invocations w"
  by (simp add: logw_def)

lemma log_logw [simp]: "log (logw l m w) = log w @ [(l, m)]"
  by (simp add: logw_def)

lemma invocations_logged [simp]: "invocations (logged self cmd w) = invocations w"
  by (simp add: logged_def)

lemma invocations_ran [simp]: "invocations (ran self cmd w) = invocations w @ [invoke self cmd]"
  by (simp add: ran_def)

lemma shell_cmd_invoke [simp]: "shell_cmd (invoke self cmd) = env_prefix self @ cmd"
  by (simp add: invoke_def)

text \<open>\<open>_run_cmd\<close> with its default arguments, and the check for the binary.\<close>

lemma run_cmd_default:
  "run_cmd self sh cmd True True w =
     (if CHR 0x00 \<in> set (env_prefix self @ cmd)
      then (Inl (ValueError ''embedded null byte''), logged self cmd w)
      else case sh (invocations w) (invoke self cmd) of
             Spawn_failed m \<Rightarrow> (Inl (OSError m), logged self cmd w)
           | Exit rc \<Rightarrow>
               (if rc = 0 then Inr () else Inl (CalledProcessError (env_prefix self @ cmd) rc),
                ran self cmd w))"
  by (simp add: run_cmd_def Let_def logw_def invoke_def ran_def logged_def split: outcome.splits)

lemma run_cmd_status:
  "status sh (invocations w) (invoke self cmd) = Some rc \<Longrightarrow>
   run_cmd self sh cmd True True w =
     (if rc = 0 then Inr () else Inl (CalledProcessError (env_prefix self @ cmd) rc),
      ran self cmd w)"
  by (auto simp add: run_cmd_default status_def split: outcome.splits if_splits)

lemma run_cmd_succeeds:
  "succeeds sh (invocations w) (invoke self cmd) \<Longrightarrow>
   run_cmd self sh cmd True True w = (Inr (), ran self cmd w)"
  by (simp add: succeeds_def run_cmd_status)

lemma run_cmd_fails:
  "fails sh (invocations w) (invoke self cmd) \<Longrightarrow>
   \<exists>rc. run_cmd self sh cmd True True w =
          (Inl (CalledProcessError (env_prefix self @ cmd) rc), ran self cmd w)"
  by (cases "status sh (invocations w) (invoke self cmd)")
     (simp_all add: fails_def run_cmd_status)

lemma fails_not_succeeds: "fails sh h i \<Longrightarrow> \<not> succeeds sh h i"
  by (cases "status sh h i") (simp_all add: fails_def succeeds_def)

lemma run_cmd_hash:
  "run_cmd self sh ''hash brew'' False True w =
     (if CHR 0x00 \<in> set (env_prefix self)
      then (Inl (ValueError ''embedded null byte''), logged self ''hash brew'' w)
      else case sh (invocations w) ((invoke self ''hash brew'')\<lparr>capture_output := False\<rparr>) of
             Spawn_failed m \<Rightarrow> (Inl (OSError m), logged self ''hash brew'' w)
           | Exit rc \<Rightarrow>
               (if rc = 0 then Inr ()
                else Inl (CalledProcessError (env_prefix self @ ''hash brew'') rc),
                (ran self ''hash brew'' w)
                  \<lparr>invocations := invocations w @
                     [(invoke self ''hash brew'')\<lparr>capture_output := False\<rparr>]\<rparr>))"
  by (simp add: run_cmd_def Let_def logw_def invoke_def ran_def logged_def split: outcome.splits)

text \<open>
  The rendering of a string holds no NUL byte (\<open>repr\<close> escapes it), so the environment
  prefix holds none, whatever the base path.
\<close>

lemma hex_digit_not_nul: "n < 16 \<Longrightarrow> hex_digit n \<noteq> CHR 0x00"
proof
  assume n: "n < 16" and "hex_digit n = CHR 0x00"
  then have "of_char (hex_digit n) = (0::nat)" by simp
  with n show False
    by (simp add: hex_digit_def split: if_splits)
qed

lemma repr_char_no_nul: "q \<noteq> CHR 0x00 \<Longrightarrow> CHR 0x00 \<notin> set (repr_char q c)"
proof -
  assume q: "q \<noteq> CHR 0x00"
  have "(of_char c :: nat) < 16 * 16" by simp
  then have d: "(of_char c :: nat) div 16 < 16"
    by (simp only: less_mult_imp_div_less)
  have m: "(of_char c :: nat) mod 16 < 16" by simp
  show ?thesis
    using q hex_digit_not_nul [OF d] hex_digit_not_nul [OF m]
    by (auto simp add: repr_char_def)
qed

lemma repr_str_no_nul: "CHR 0x00 \<notin> set (repr_str s)"
  using repr_char_no_nul [of "CHR 0x22"] repr_char_no_nul [of "CHR 0x27"]
  by (auto simp add: repr_str_def Let_def)

lemma env_prefix_no_nul: "CHR 0x00 \<notin> set (env_prefix self)"
  by (simp add: env_prefix_def str_dict_def homebrew_envs_def repr_str_no_nul)

text \<open>
  Invocations are only ever added, and outside \<open>_run_cmd\<close> itself a CalledProcessError is
  always caught.
\<close>

lemma run_cmd_grows:
  "run_cmd self sh cmd cap env w = (r, w') \<Longrightarrow>
   length (invocations w) \<le> length (invocations w')"
  by (auto simp add: run_cmd_def Let_def split: if_splits outcome.splits)

lemma contained_return [simp]: "contained w (Inr x, w') = (length (invocations w) \<le> length (invocations w'))"
  by (simp add: contained_def)

lemma contained_trans:
  "length (invocations w) \<le> length (invocations w1) \<Longrightarrow> contained w1 r \<Longrightarrow> contained w r"
  by (simp add: contained_def)

lemma tap_contained: "contained w (tap self sh ts w)"
proof (induction ts arbitrary: w)
  case Nil
  show ?case by simp
next
  case (Cons t ts)
  obtain r w1 where r: "run_cmd self sh (tap_cmd t) True True (logw Info (''Tapping '' @ t) w) = (r, w1)"
    by (cases "run_cmd self sh (tap_cmd t) True True (logw Info (''Tapping '' @ t) w)") auto
  from run_cmd_grows [OF r] have g: "length (invocations w) \<le> length (invocations w1)" by simp
  show ?case
  proof (cases r)
    case (Inl e)
    with r g show ?thesis by (cases e) (simp_all add: contained_def)
  next
    case (Inr u)
    with r contained_trans [OF g Cons.IH [of w1]] show ?thesis by simp
  qed
qed

lemma install_bundle_contained: "contained w (install_bundle self sh fs w)"
proof (induction fs arbitrary: w)
  case Nil
  show ?case by simp
next
  case (Cons f fs)
  obtain r w1 where r: "run_cmd self sh (bundle_cmd f) True True
                          (logw Info (''Installing from file '' @ f) w) = (r, w1)"
    by (cases "run_cmd self sh (bundle_cmd f) True True
                 (logw Info (''Installing from file '' @ f) w)") auto
  from run_cmd_grows [OF r] have g: "length (invocations w) \<le> length (invocations w1)" by simp
  show ?case
  proof (cases r)
    case (Inl e)
    with r g show ?thesis by (cases e) (simp_all add: contained_def)
  next
    case (Inr u)
    with r contained_trans [OF g Cons.IH [of w1]] show ?thesis by simp
  qed
qed

lemma install_contained: "contained w (install self sh c ps w)"
proof (induction ps arbitrary: w)
  case Nil
  show ?case by simp
next
  case (Cons p ps)
  obtain r w1 where r: "run_cmd self sh (query_cmd c p) True True w = (r, w1)"
    by (cases "run_cmd self sh (query_cmd c p) True True w") auto
  from run_cmd_grows [OF r] have g: "length (invocations w) \<le> length (invocations w1)" .
  obtain r2 w2 where r2: "run_cmd self sh (install_pkg_cmd c p) True True
                            (logw Info (''Installing '' @ p) w1) = (r2, w2)"
    by (cases "run_cmd self sh (install_pkg_cmd c p) True True
                 (logw Info (''Installing '' @ p) w1)") auto
  from run_cmd_grows [OF r2] g have g2: "length (invocations w) \<le> length (invocations w2)"
    by simp
  show ?case
  proof (cases r)
    case (Inr u)
    with r contained_trans [OF g Cons.IH [of w1]] show ?thesis by simp
  next
    case (Inl e)
    show ?thesis
    proof (cases e)
      case (CalledProcessError cmd rc)
      show ?thesis
      proof (cases r2)
        case (Inr u)
        with r r2 Inl CalledProcessError contained_trans [OF g2 Cons.IH [of w2]]
        show ?thesis by simp
      next
        case e2: (Inl e2)
        with r r2 Inl CalledProcessError g2 show ?thesis
          by (cases e2) (simp_all add: contained_def)
      qed
    qed (use r g Inl in \<open>simp_all add: contained_def\<close>)
  qed
qed

lemma process_data_contained: "contained w (process_data self sh c ps w)"
  using install_contained [of w self sh c ps]
  by (cases "install self sh c ps w")
     (auto simp add: process_data_def Let_def contained_def split: sum.splits exn.splits)

lemma bootstrap_brew_contained: "contained w (bootstrap_brew self sh w)"
proof -
  obtain r w1 where r: "run_cmd self sh install_script True False w = (r, w1)"
    by (cases "run_cmd self sh install_script True False w") auto
  obtain r2 w2 where r2: "run_cmd self sh ''brew update'' True True
                            (logw Info ''Updating brew'' w1) = (r2, w2)"
    by (cases "run_cmd self sh ''brew update'' True True (logw Info ''Updating brew'' w1)") auto
  from run_cmd_grows [OF r] run_cmd_grows [OF r2]
  have "length (invocations w) \<le> length (invocations w1)"
    and "length (invocations w) \<le> length (invocations w2)" by simp_all
  with r r2 show ?thesis
    by (simp add: bootstrap_brew_def contained_def split: sum.splits exn.splits)
qed

lemma ensure_brew_contained: "contained w (ensure_brew self sh w)"
proof -
  obtain r w1 where r: "run_cmd self sh ''hash brew'' False True w = (r, w1)"
    by (cases "run_cmd self sh ''hash brew'' False True w") auto
  from run_cmd_grows [OF r] have g: "length (invocations w) \<le> length (invocations w1)" .
  from contained_trans [of w "logw Info ''Brew not found, installing'' w1", OF _ bootstrap_brew_contained] g
  have "contained w (bootstrap_brew self sh (logw Info ''Brew not found, installing'' w1))"
    by simp
  with r g show ?thesis
    by (simp add: ensure_brew_def contained_def split: sum.splits exn.splits)
qed

lemma some_result_contained: "contained w r \<Longrightarrow> contained w (some_result r)"
  by (cases r) (auto simp add: some_result_def contained_def split: sum.splits)

lemma dispatch_contained: "contained w (dispatch self sh d data w)"
  by (simp add: dispatch_def some_result_contained tap_contained process_data_contained
        install_bundle_contained)

section \<open>The handlers along the histories of a run\<close>

text \<open>
  In each lemma the items before the failing one succeed after the invocations the run has
  made when it reaches them, and the failing item fails after the invocations of all of
  them.
\<close>

subsection \<open>Taps\<close>

lemma tap_run_ok:
  "(\<forall>j<length ts. succeeds sh (invocations w @ tap_invs self (take j ts))
        (invoke self (tap_cmd (ts ! j)))) \<Longrightarrow>
   fst (tap self sh ts w) = Inr True \<and>
   invocations (snd (tap self sh ts w)) = invocations w @ tap_invs self ts"
proof (induction ts arbitrary: w)
  case Nil
  show ?case by (simp add: tap_invs_def)
next
  case (Cons t ts)
  let ?w1 = "ran self (tap_cmd t) (logw Info (''Tapping '' @ t) w)"
  from Cons.prems have "succeeds sh (invocations w) (invoke self (tap_cmd t))"
    by (auto simp add: tap_invs_def)
  then have s: "tap self sh (t # ts) w = tap self sh ts ?w1"
    by (simp add: run_cmd_succeeds)
  have "\<forall>j<length ts. succeeds sh (invocations ?w1 @ tap_invs self (take j ts))
          (invoke self (tap_cmd (ts ! j)))"
  proof (intro allI impI)
    fix j assume "j < length ts"
    then have "Suc j < length (t # ts)" by simp
    with Cons.prems show "succeeds sh (invocations ?w1 @ tap_invs self (take j ts))
          (invoke self (tap_cmd (ts ! j)))"
      by (fastforce simp add: tap_invs_def)
  qed
  from Cons.IH [OF this] show ?case by (simp add: tap_invs_def s del: tap.simps)
qed

lemma tap_run_stops:
  "(\<forall>j<length pre. succeeds sh (invocations w @ tap_invs self (take j pre))
        (invoke self (tap_cmd (pre ! j)))) \<Longrightarrow>
   fails sh (invocations w @ tap_invs self pre) (invoke self (tap_cmd t)) \<Longrightarrow>
   tap self sh (pre @ t # post) w = tap self sh (pre @ [t]) w \<and>
   fst (tap self sh (pre @ t # post) w) = Inr False \<and>
   invocations (snd (tap self sh (pre @ t # post) w)) =
     invocations w @ tap_invs self (pre @ [t])"
proof (induction pre arbitrary: w)
  case Nil
  from run_cmd_fails [of sh "logw Info (''Tapping '' @ t) w" self "tap_cmd t"] Nil.prems
  obtain rc where "run_cmd self sh (tap_cmd t) True True (logw Info (''Tapping '' @ t) w) =
      (Inl (CalledProcessError (env_prefix self @ tap_cmd t) rc),
       ran self (tap_cmd t) (logw Info (''Tapping '' @ t) w))"
    by (auto simp add: tap_invs_def)
  then show ?case by (simp add: tap_invs_def)
next
  case (Cons a pre)
  let ?w1 = "ran self (tap_cmd a) (logw Info (''Tapping '' @ a) w)"
  from Cons.prems(1) have "succeeds sh (invocations w) (invoke self (tap_cmd a))"
    by (auto simp add: tap_invs_def)
  then have s: "tap self sh (a # xs) w = tap self sh xs ?w1" for xs
    by (simp add: run_cmd_succeeds)
  have p: "\<forall>j<length pre. succeeds sh (invocations ?w1 @ tap_invs self (take j pre))
          (invoke self (tap_cmd (pre ! j)))"
  proof (intro allI impI)
    fix j assume "j < length pre"
    then have "Suc j < length (a # pre)" by simp
    with Cons.prems(1) show "succeeds sh (invocations ?w1 @ tap_invs self (take j pre))
          (invoke self (tap_cmd (pre ! j)))"
      by (fastforce simp add: tap_invs_def)
  qed
  from Cons.prems(2)
  have f: "fails sh (invocations ?w1 @ tap_invs self pre) (invoke self (tap_cmd t))"
    by (simp add: tap_invs_def)
  note ih = Cons.IH [OF p f]
  show ?case
    unfolding append_Cons s
    using ih by (auto simp add: tap_invs_def)
qed

subsection \<open>Bundle files\<close>

lemma install_bundle_run_ok:
  "(\<forall>j<length fs. succeeds sh (invocations w @ bundle_invs self (take j fs))
        (invoke self (bundle_cmd (fs ! j)))) \<Longrightarrow>
   fst (install_bundle self sh fs w) = Inr True \<and>
   invocations (snd (install_bundle self sh fs w)) = invocations w @ bundle_invs self fs"
proof (induction fs arbitrary: w)
  case Nil
  show ?case by (simp add: bundle_invs_def)
next
  case (Cons f fs)
  let ?w1 = "ran self (bundle_cmd f) (logw Info (''Installing from file '' @ f) w)"
  from Cons.prems have "succeeds sh (invocations w) (invoke self (bundle_cmd f))"
    by (auto simp add: bundle_invs_def)
  then have s: "install_bundle self sh (f # fs) w = install_bundle self sh fs ?w1"
    by (simp add: run_cmd_succeeds)
  have "\<forall>j<length fs. succeeds sh (invocations ?w1 @ bundle_invs self (take j fs))
          (invoke self (bundle_cmd (fs ! j)))"
  proof (intro allI impI)
    fix j assume "j < length fs"
    then have "Suc j < length (f # fs)" by simp
    with Cons.prems show "succeeds sh (invocations ?w1 @ bundle_invs self (take j fs))
          (invoke self (bundle_cmd (fs ! j)))"
      by (fastforce simp add: bundle_invs_def)
  qed
  from Cons.IH [OF this] show ?case by (simp add: bundle_invs_def s del: install_bundle.simps)
qed

lemma install_bundle_run_stops:
  "(\<forall>j<length pre. succeeds sh (invocations w @ bundle_invs self (take j pre))
        (invoke self (bundle_cmd (pre ! j)))) \<Longrightarrow>
   fails sh (invocations w @ bundle_invs self pre) (invoke self (bundle_cmd f)) \<Longrightarrow>
   install_bundle self sh (pre @ f # post) w = install_bundle self sh (pre @ [f]) w \<and>
   fst (install_bundle self sh (pre @ f # post) w) = Inr False \<and>
   invocations (snd (install_bundle self sh (pre @ f # post) w)) =
     invocations w @ bundle_invs self (pre @ [f])"
proof (induction pre arbitrary: w)
  case Nil
  from run_cmd_fails [of sh "logw Info (''Installing from file '' @ f) w" self "bundle_cmd f"]
    Nil.prems
  obtain rc where "run_cmd self sh (bundle_cmd f) True True
                     (logw Info (''Installing from file '' @ f) w) =
      (Inl (CalledProcessError (env_prefix self @ bundle_cmd f) rc),
       ran self (bundle_cmd f) (logw Info (''Installing from file '' @ f) w))"
    by (auto simp add: bundle_invs_def)
  then show ?case by (simp add: bundle_invs_def)
next
  case (Cons a pre)
  let ?w1 = "ran self (bundle_cmd a) (logw Info (''Installing from file '' @ a) w)"
  from Cons.prems(1) have "succeeds sh (invocations w) (invoke self (bundle_cmd a))"
    by (auto simp add: bundle_invs_def)
  then have s: "install_bundle self sh (a # xs) w = install_bundle self sh xs ?w1" for xs
    by (simp add: run_cmd_succeeds)
  have p: "\<forall>j<length pre. succeeds sh (invocations ?w1 @ bundle_invs self (take j pre))
          (invoke self (bundle_cmd (pre ! j)))"
  proof (intro allI impI)
    fix j assume "j < length pre"
    then have "Suc j < length (a # pre)" by simp
    with Cons.prems(1) show "succeeds sh (invocations ?w1 @ bundle_invs self (take j pre))
          (invoke self (bundle_cmd (pre ! j)))"
      by (fastforce simp add: bundle_invs_def)
  qed
  from Cons.prems(2)
  have f: "fails sh (invocations ?w1 @ bundle_invs self pre) (invoke self (bundle_cmd f))"
    by (simp add: bundle_invs_def)
  note ih = Cons.IH [OF p f]
  show ?case
    unfolding append_Cons s
    using ih by (auto simp add: bundle_invs_def)
qed

subsection \<open>Packages\<close>

lemma install_query_ok:
  "succeeds sh (invocations w) (invoke self (query_cmd c p)) \<Longrightarrow>
   install self sh c (p # ps) w = install self sh c ps (ran self (query_cmd c p) w)"
  by (simp add: run_cmd_succeeds)

lemma install_query_fails_install_ok:
  "fails sh (invocations w) (invoke self (query_cmd c p)) \<Longrightarrow>
   succeeds sh (invocations w @ [invoke self (query_cmd c p)])
     (invoke self (install_pkg_cmd c p)) \<Longrightarrow>
   install self sh c (p # ps) w =
     install self sh c ps
       (ran self (install_pkg_cmd c p)
          (logw Info (''Installing '' @ p) (ran self (query_cmd c p) w)))"
proof -
  assume f: "fails sh (invocations w) (invoke self (query_cmd c p))"
    and s: "succeeds sh (invocations w @ [invoke self (query_cmd c p)])
              (invoke self (install_pkg_cmd c p))"
  from run_cmd_fails [OF f] obtain rc where
    q: "run_cmd self sh (query_cmd c p) True True w =
          (Inl (CalledProcessError (env_prefix self @ query_cmd c p) rc),
           ran self (query_cmd c p) w)" by blast
  from s have "run_cmd self sh (install_pkg_cmd c p) True True
                 (logw Info (''Installing '' @ p) (ran self (query_cmd c p) w)) =
               (Inr (), ran self (install_pkg_cmd c p)
                  (logw Info (''Installing '' @ p) (ran self (query_cmd c p) w)))"
    by (simp add: run_cmd_succeeds)
  with q show ?thesis by simp
qed

lemma install_query_fails_install_fails:
  "fails sh (invocations w) (invoke self (query_cmd c p)) \<Longrightarrow>
   fails sh (invocations w @ [invoke self (query_cmd c p)])
     (invoke self (install_pkg_cmd c p)) \<Longrightarrow>
   fst (install self sh c (p # ps) w) = Inr False \<and>
   install self sh c (p # ps) w = install self sh c [p] w \<and>
   invocations (snd (install self sh c (p # ps) w)) =
     invocations w @ [invoke self (query_cmd c p), invoke self (install_pkg_cmd c p)]"
proof -
  assume f: "fails sh (invocations w) (invoke self (query_cmd c p))"
    and g: "fails sh (invocations w @ [invoke self (query_cmd c p)])
              (invoke self (install_pkg_cmd c p))"
  from run_cmd_fails [OF f] obtain rc where
    q: "run_cmd self sh (query_cmd c p) True True w =
          (Inl (CalledProcessError (env_prefix self @ query_cmd c p) rc),
           ran self (query_cmd c p) w)" by blast
  from run_cmd_fails [of sh "logw Info (''Installing '' @ p) (ran self (query_cmd c p) w)"
      self "install_pkg_cmd c p"] g
  obtain rc2 where
    "run_cmd self sh (install_pkg_cmd c p) True True
       (logw Info (''Installing '' @ p) (ran self (query_cmd c p) w)) =
     (Inl (CalledProcessError (env_prefix self @ install_pkg_cmd c p) rc2),
      ran self (install_pkg_cmd c p)
        (logw Info (''Installing '' @ p) (ran self (query_cmd c p) w)))"
    by auto
  with q show ?thesis by simp
qed

lemma install_step:
  assumes "package_succeeds self sh c (invocations w) p"
  shows "\<exists>w1. (\<forall>xs. install self sh c (p # xs) w = install self sh c xs w1) \<and>
              invocations w1 = install_invs self sh c (invocations w) [p]"
proof (cases "succeeds sh (invocations w) (invoke self (query_cmd c p))")
  case True
  then show ?thesis
    using install_query_ok [OF True] by (intro exI [of _ "ran self (query_cmd c p) w"]) simp
next
  case False
  with assms have f: "fails sh (invocations w) (invoke self (query_cmd c p))"
    and s: "succeeds sh (invocations w @ [invoke self (query_cmd c p)])
              (invoke self (install_pkg_cmd c p))"
    by (simp_all add: package_succeeds_def)
  show ?thesis
    using install_query_fails_install_ok [OF f s] False
    by (intro exI [of _ "ran self (install_pkg_cmd c p)
          (logw Info (''Installing '' @ p) (ran self (query_cmd c p) w))"]) simp
qed

lemma install_invs_Cons:
  "install_invs self sh c h (p # ps) =
     install_invs self sh c (install_invs self sh c h [p]) ps"
  by simp

lemma install_run_ok:
  "(\<forall>j<length ps. package_succeeds self sh c
        (install_invs self sh c (invocations w) (take j ps)) (ps ! j)) \<Longrightarrow>
   fst (install self sh c ps w) = Inr True \<and>
   invocations (snd (install self sh c ps w)) = install_invs self sh c (invocations w) ps"
proof (induction ps arbitrary: w)
  case Nil
  show ?case by simp
next
  case (Cons p ps)
  from Cons.prems have "package_succeeds self sh c (invocations w) p" by auto
  from install_step [OF this] obtain w1 where
    s: "\<And>xs. install self sh c (p # xs) w = install self sh c xs w1"
    and i: "invocations w1 = install_invs self sh c (invocations w) [p]" by blast
  have "\<forall>j<length ps. package_succeeds self sh c
          (install_invs self sh c (invocations w1) (take j ps)) (ps ! j)"
  proof (intro allI impI)
    fix j assume "j < length ps"
    then have "Suc j < length (p # ps)" by simp
    with Cons.prems have "package_succeeds self sh c
          (install_invs self sh c (invocations w) (take (Suc j) (p # ps))) ((p # ps) ! Suc j)"
      by blast
    then show "package_succeeds self sh c
          (install_invs self sh c (invocations w1) (take j ps)) (ps ! j)"
      unfolding i by (simp only: take_Suc_Cons nth_Cons_Suc install_invs_Cons [symmetric])
  qed
  from Cons.IH [OF this] show ?case
    unfolding s i by (simp only: install_invs_Cons [symmetric])
qed

lemma install_run_stops:
  "(\<forall>j<length pre. package_succeeds self sh c
        (install_invs self sh c (invocations w) (take j pre)) (pre ! j)) \<Longrightarrow>
   package_fails self sh c (install_invs self sh c (invocations w) pre) p \<Longrightarrow>
   install self sh c (pre @ p # post) w = install self sh c (pre @ [p]) w \<and>
   fst (install self sh c (pre @ p # post) w) = Inr False \<and>
   invocations (snd (install self sh c (pre @ p # post) w)) =
     install_invs self sh c (invocations w) pre @
       [invoke self (query_cmd c p), invoke self (install_pkg_cmd c p)]"
proof (induction pre arbitrary: w)
  case Nil
  then have f: "fails sh (invocations w) (invoke self (query_cmd c p))"
    and g: "fails sh (invocations w @ [invoke self (query_cmd c p)])
              (invoke self (install_pkg_cmd c p))"
    by (simp_all add: package_fails_def)
  from install_query_fails_install_fails [OF f g, of post] show ?case
    by (auto simp del: install.simps)
next
  case (Cons a pre)
  from Cons.prems(1) have "package_succeeds self sh c (invocations w) a" by auto
  from install_step [OF this] obtain w1 where
    s: "\<And>xs. install self sh c (a # xs) w = install self sh c xs w1"
    and i: "invocations w1 = install_invs self sh c (invocations w) [a]" by blast
  have p: "\<forall>j<length pre. package_succeeds self sh c
          (install_invs self sh c (invocations w1) (take j pre)) (pre ! j)"
  proof (intro allI impI)
    fix j assume "j < length pre"
    then have "Suc j < length (a # pre)" by simp
    with Cons.prems(1) have "package_succeeds self sh c
          (install_invs self sh c (invocations w) (take (Suc j) (a # pre))) ((a # pre) ! Suc j)"
      by blast
    then show "package_succeeds self sh c
          (install_invs self sh c (invocations w1) (take j pre)) (pre ! j)"
      unfolding i by (simp only: take_Suc_Cons nth_Cons_Suc install_invs_Cons [symmetric])
  qed
  from Cons.prems(2)
  have f: "package_fails self sh c (install_invs self sh c (invocations w1) pre) p"
    unfolding i by (simp only: install_invs_Cons [symmetric])
  note ih = Cons.IH [OF p f]
  show ?case
    unfolding append_Cons s
    using ih unfolding i install_invs_Cons [symmetric]
    by (auto simp del: install_invs.simps)
qed

section \<open>The directives the plugin accepts\<close>

text \<open>
  C6. \<open>can_handle\<close> is true exactly for \<open>tap\<close>, \<open>brew\<close>, \<open>brewfile\<close> and, on macOS only,
  \<open>cask\<close>; so it is false for \<open>cask\<close> off macOS and for every other string. It is a function
  of the plugin and the directive alone: it takes no world and returns none, so it neither runs
  a command nor writes a log line.
\<close>

theorem can_handle_iff:
  "can_handle self d =
     (d = ''tap'' \<or> d = ''brew'' \<or> d = ''brewfile'' \<or> (is_macos self \<and> d = ''cask''))"
  by (auto simp add: can_handle_def Let_def tap_directive_def brew_directive_def
        brewfile_directive_def cask_directive_def)




lemmas handle_defs = handle_def can_handle_def tap_directive_def brew_directive_def
  brewfile_directive_def cask_directive_def ensure_brew_def required_tap_def dispatch_def
  some_result_def process_data_def

lemmas cmd_defs = tap_cmd_def query_cmd_def install_pkg_cmd_def bundle_cmd_def cask_flag_def



section \<open>The handlers stop at the first failure\<close>

text \<open>The example hosts are what the class body builds on those platforms.\<close>

lemma Brew_examples:
  "Brew ''darwin'' ''arm64'' ''/dotfiles'' = Some macos_arm64"
  "Brew ''linux'' ''x86_64'' ''/dotfiles'' = Some linux_host"
  by (simp_all add: Brew_def macos_arm64_def linux_host_def)

text \<open>The run lemmas with the failing item given by its position in the list.\<close>

lemma tap_stops_at:
  assumes "k < length ts"
    and "\<forall>j<k. succeeds sh (invocations w @ tap_invs self (take j ts))
           (invoke self (tap_cmd (ts ! j)))"
    and "fails sh (invocations w @ tap_invs self (take k ts)) (invoke self (tap_cmd (ts ! k)))"
  shows "fst (tap self sh ts w) = Inr False \<and>
         invocations (snd (tap self sh ts w)) = invocations w @ tap_invs self (take (Suc k) ts)"
proof -
  have ts: "take k ts @ ts ! k # drop (Suc k) ts = ts"
    by (rule id_take_nth_drop [OF assms(1), symmetric])
  have p: "\<forall>j<length (take k ts). succeeds sh
             (invocations w @ tap_invs self (take j (take k ts)))
             (invoke self (tap_cmd (take k ts ! j)))"
    using assms(1,2) by (simp add: min_def)
  from tap_run_stops [OF p assms(3), of "drop (Suc k) ts"] show ?thesis
    by (auto simp add: ts take_Suc_conv_app_nth [OF assms(1)])
qed

lemma install_bundle_stops_at:
  assumes "k < length fs"
    and "\<forall>j<k. succeeds sh (invocations w @ bundle_invs self (take j fs))
           (invoke self (bundle_cmd (fs ! j)))"
    and "fails sh (invocations w @ bundle_invs self (take k fs))
           (invoke self (bundle_cmd (fs ! k)))"
  shows "fst (install_bundle self sh fs w) = Inr False \<and>
         invocations (snd (install_bundle self sh fs w)) =
           invocations w @ bundle_invs self (take (Suc k) fs)"
proof -
  have fs: "take k fs @ fs ! k # drop (Suc k) fs = fs"
    by (rule id_take_nth_drop [OF assms(1), symmetric])
  have p: "\<forall>j<length (take k fs). succeeds sh
             (invocations w @ bundle_invs self (take j (take k fs)))
             (invoke self (bundle_cmd (take k fs ! j)))"
    using assms(1,2) by (simp add: min_def)
  from install_bundle_run_stops [OF p assms(3), of "drop (Suc k) fs"] show ?thesis
    by (auto simp add: fs take_Suc_conv_app_nth [OF assms(1)])
qed

lemma install_stops_at:
  assumes "k < length ps"
    and "\<forall>j<k. package_succeeds self sh c
           (install_invs self sh c (invocations w) (take j ps)) (ps ! j)"
    and "package_fails self sh c (install_invs self sh c (invocations w) (take k ps)) (ps ! k)"
  shows "fst (install self sh c ps w) = Inr False \<and>
         invocations (snd (install self sh c ps w)) =
           install_invs self sh c (invocations w) (take k ps) @
             [invoke self (query_cmd c (ps ! k)), invoke self (install_pkg_cmd c (ps ! k))]"
proof -
  have ps: "take k ps @ ps ! k # drop (Suc k) ps = ps"
    by (rule id_take_nth_drop [OF assms(1), symmetric])
  have p: "\<forall>j<length (take k ps). package_succeeds self sh c
             (install_invs self sh c (invocations w) (take j (take k ps))) (take k ps ! j)"
    using assms(1,2) by (simp add: min_def)
  from install_run_stops [OF p assms(3), of "drop (Suc k) ps"] show ?thesis
    by (auto simp add: ps)
qed

text \<open>
  C4. Each of \<open>_tap\<close>, \<open>_install\<close> and \<open>_install_bundle\<close> returns false as soon as an item
  fails, and attempts nothing after it; when every item succeeds it returns true. An item
  succeeds or fails after the invocations that the run has made when it reaches the item.
  For a tap or a bundle file the item is its one command; a package succeeds when its version
  query succeeds or its install command does, and fails when both fail. When the item at
  position \<open>k\<close> is the first to fail, the handler returns false and the invocations made
  are those of the items up to \<open>k\<close>, so nothing that follows in the list was attempted.
  When every item succeeds the handler returns true, having made the invocations of the
  whole list.
\<close>

theorem handlers_stop_at_first_failure:
  "(k < length ts \<and>
    (\<forall>j<k. succeeds sh (invocations w @ tap_invs self (take j ts))
       (invoke self (tap_cmd (ts ! j)))) \<and>
    fails sh (invocations w @ tap_invs self (take k ts)) (invoke self (tap_cmd (ts ! k))) \<longrightarrow>
      fst (tap self sh ts w) = Inr False \<and>
      invocations (snd (tap self sh ts w)) = invocations w @ tap_invs self (take (Suc k) ts)) \<and>
   ((\<forall>j<length ts. succeeds sh (invocations w @ tap_invs self (take j ts))
       (invoke self (tap_cmd (ts ! j)))) \<longrightarrow>
      fst (tap self sh ts w) = Inr True \<and>
      invocations (snd (tap self sh ts w)) = invocations w @ tap_invs self ts) \<and>
   (kp < length ps \<and>
    (\<forall>j<kp. package_succeeds self sh c
       (install_invs self sh c (invocations w) (take j ps)) (ps ! j)) \<and>
    package_fails self sh c (install_invs self sh c (invocations w) (take kp ps)) (ps ! kp) \<longrightarrow>
      fst (install self sh c ps w) = Inr False \<and>
      invocations (snd (install self sh c ps w)) =
        install_invs self sh c (invocations w) (take kp ps) @
          [invoke self (query_cmd c (ps ! kp)), invoke self (install_pkg_cmd c (ps ! kp))]) \<and>
   ((\<forall>j<length ps. package_succeeds self sh c
       (install_invs self sh c (invocations w) (take j ps)) (ps ! j)) \<longrightarrow>
      fst (install self sh c ps w) = Inr True \<and>
      invocations (snd (install self sh c ps w)) = install_invs self sh c (invocations w) ps) \<and>
   (kf < length fs \<and>
    (\<forall>j<kf. succeeds sh (invocations w @ bundle_invs self (take j fs))
       (invoke self (bundle_cmd (fs ! j)))) \<and>
    fails sh (invocations w @ bundle_invs self (take kf fs))
      (invoke self (bundle_cmd (fs ! kf))) \<longrightarrow>
      fst (install_bundle self sh fs w) = Inr False \<and>
      invocations (snd (install_bundle self sh fs w)) =
        invocations w @ bundle_invs self (take (Suc kf) fs)) \<and>
   ((\<forall>j<length fs. succeeds sh (invocations w @ bundle_invs self (take j fs))
       (invoke self (bundle_cmd (fs ! j)))) \<longrightarrow>
      fst (install_bundle self sh fs w) = Inr True \<and>
      invocations (snd (install_bundle self sh fs w)) = invocations w @ bundle_invs self fs)"
  using tap_stops_at [of k ts sh w self] tap_run_ok [of ts sh w self]
    install_stops_at [of kp ps self sh c w] install_run_ok [of ps self sh c w]
    install_bundle_stops_at [of kf fs sh w self] install_bundle_run_ok [of fs sh w self]
  by blast

text \<open>The example: the second of three items fails, and two items that succeed.\<close>

lemma status_item_fails:
  "CHR 0x00 \<notin> set cmd \<Longrightarrow>
   status sh_item_fails h (invoke linux_host cmd) =
     Some (if cmd \<in> set [tap_cmd ''b'', query_cmd ''brew install'' ''curl'',
        install_pkg_cmd ''brew install'' ''curl'', bundle_cmd ''Brewfile.b''] then 1 else 0)"
  by (simp add: status_def sh_item_fails_def sh_fails_on_def env_prefix_no_nul)

lemmas item_simps = succeeds_def fails_def package_succeeds_def package_fails_def
  status_item_fails tap_invs_def bundle_invs_def cmd_defs less_Suc_eq

lemma fresh_invocations [simp]: "invocations fresh = []"
  by (simp add: fresh_def)

theorem handlers_stop_at_first_failure_witness:
  "fst (tap linux_host sh_item_fails [''a'', ''b'', ''c''] fresh) = Inr False \<and>
   invocations (snd (tap linux_host sh_item_fails [''a'', ''b'', ''c''] fresh)) =
     [invoke linux_host (tap_cmd ''a''), invoke linux_host (tap_cmd ''b'')] \<and>
   fst (tap linux_host sh_item_fails [''a'', ''c''] fresh) = Inr True \<and>
   invocations (snd (tap linux_host sh_item_fails [''a'', ''c''] fresh)) =
     [invoke linux_host (tap_cmd ''a''), invoke linux_host (tap_cmd ''c'')] \<and>
   fst (install linux_host sh_item_fails ''brew install'' [''git'', ''curl'', ''wget''] fresh)
     = Inr False \<and>
   invocations
     (snd (install linux_host sh_item_fails ''brew install'' [''git'', ''curl'', ''wget''] fresh)) =
     [invoke linux_host (query_cmd ''brew install'' ''git''),
      invoke linux_host (query_cmd ''brew install'' ''curl''),
      invoke linux_host (install_pkg_cmd ''brew install'' ''curl'')] \<and>
   fst (install linux_host sh_item_fails ''brew install'' [''git'', ''wget''] fresh) = Inr True \<and>
   invocations (snd (install linux_host sh_item_fails ''brew install'' [''git'', ''wget''] fresh)) =
     [invoke linux_host (query_cmd ''brew install'' ''git''),
      invoke linux_host (query_cmd ''brew install'' ''wget'')] \<and>
   fst (install_bundle linux_host sh_item_fails [''Brewfile.a'', ''Brewfile.b'', ''Brewfile.c'']
          fresh) = Inr False \<and>
   invocations
     (snd (install_bundle linux_host sh_item_fails [''Brewfile.a'', ''Brewfile.b'', ''Brewfile.c'']
          fresh)) =
     [invoke linux_host (bundle_cmd ''Brewfile.a''), invoke linux_host (bundle_cmd ''Brewfile.b'')] \<and>
   fst (install_bundle linux_host sh_item_fails [''Brewfile.a'', ''Brewfile.c''] fresh) = Inr True \<and>
   invocations (snd (install_bundle linux_host sh_item_fails [''Brewfile.a'', ''Brewfile.c''] fresh)) =
     [invoke linux_host (bundle_cmd ''Brewfile.a''), invoke linux_host (bundle_cmd ''Brewfile.c'')]"
proof -
  let ?ts = "[''a'', ''b'', ''c'']" and ?ts' = "[''a'', ''c'']"
  let ?ps = "[''git'', ''curl'', ''wget'']" and ?ps' = "[''git'', ''wget'']"
  let ?fs = "[''Brewfile.a'', ''Brewfile.b'', ''Brewfile.c'']"
  let ?fs' = "[''Brewfile.a'', ''Brewfile.c'']"
  let ?c = "''brew install''"
  have k: "(1::nat) < length ?ts" "(1::nat) < length ?ps" "(1::nat) < length ?fs" by simp_all
  have t1: "\<forall>j<1. succeeds sh_item_fails (invocations fresh @ tap_invs linux_host (take j ?ts))
              (invoke linux_host (tap_cmd (?ts ! j)))"
    by (simp add: item_simps)
  have t2: "fails sh_item_fails (invocations fresh @ tap_invs linux_host (take 1 ?ts))
              (invoke linux_host (tap_cmd (?ts ! 1)))"
    by (simp add: item_simps)
  have t3: "\<forall>j<length ?ts'. succeeds sh_item_fails
              (invocations fresh @ tap_invs linux_host (take j ?ts'))
              (invoke linux_host (tap_cmd (?ts' ! j)))"
    by (auto simp add: item_simps)
  have p1: "\<forall>j<1. package_succeeds linux_host sh_item_fails ?c
              (install_invs linux_host sh_item_fails ?c (invocations fresh) (take j ?ps)) (?ps ! j)"
    by (simp add: item_simps)
  have p2: "package_fails linux_host sh_item_fails ?c
              (install_invs linux_host sh_item_fails ?c (invocations fresh) (take 1 ?ps)) (?ps ! 1)"
    by (simp add: item_simps)
  have p3: "\<forall>j<length ?ps'. package_succeeds linux_host sh_item_fails ?c
              (install_invs linux_host sh_item_fails ?c (invocations fresh) (take j ?ps'))
              (?ps' ! j)"
    by (auto simp add: item_simps)
  have f1: "\<forall>j<1. succeeds sh_item_fails (invocations fresh @ bundle_invs linux_host (take j ?fs))
              (invoke linux_host (bundle_cmd (?fs ! j)))"
    by (simp add: item_simps)
  have f2: "fails sh_item_fails (invocations fresh @ bundle_invs linux_host (take 1 ?fs))
              (invoke linux_host (bundle_cmd (?fs ! 1)))"
    by (simp add: item_simps)
  have f3: "\<forall>j<length ?fs'. succeeds sh_item_fails
              (invocations fresh @ bundle_invs linux_host (take j ?fs'))
              (invoke linux_host (bundle_cmd (?fs' ! j)))"
    by (auto simp add: item_simps)
  have i1: "install_invs linux_host sh_item_fails ?c [] (take 1 ?ps) =
              [invoke linux_host (query_cmd ?c ''git'')]"
    and i2: "install_invs linux_host sh_item_fails ?c [] ?ps' =
              [invoke linux_host (query_cmd ?c ''git''), invoke linux_host (query_cmd ?c ''wget'')]"
    by (simp_all add: item_simps)
  from handlers_stop_at_first_failure
    [where self = linux_host and sh = sh_item_fails and w = fresh and c = ?c
       and k = 1 and ts = ?ts and kp = 1 and ps = ?ps and kf = 1 and fs = ?fs]
    k t1 t2 p1 p2 f1 f2
  have a: "fst (tap linux_host sh_item_fails ?ts fresh) = Inr False \<and>
      invocations (snd (tap linux_host sh_item_fails ?ts fresh)) =
        invocations fresh @ tap_invs linux_host (take (Suc 1) ?ts)"
    and b: "fst (install linux_host sh_item_fails ?c ?ps fresh) = Inr False \<and>
      invocations (snd (install linux_host sh_item_fails ?c ?ps fresh)) =
        install_invs linux_host sh_item_fails ?c (invocations fresh) (take 1 ?ps) @
          [invoke linux_host (query_cmd ?c (?ps ! 1)),
           invoke linux_host (install_pkg_cmd ?c (?ps ! 1))]"
    and c: "fst (install_bundle linux_host sh_item_fails ?fs fresh) = Inr False \<and>
      invocations (snd (install_bundle linux_host sh_item_fails ?fs fresh)) =
        invocations fresh @ bundle_invs linux_host (take (Suc 1) ?fs)"
    by blast+
  from handlers_stop_at_first_failure
    [where self = linux_host and sh = sh_item_fails and w = fresh and c = ?c
       and ts = ?ts' and ps = ?ps' and fs = ?fs'] t3 p3 f3
  have d: "fst (tap linux_host sh_item_fails ?ts' fresh) = Inr True \<and>
      invocations (snd (tap linux_host sh_item_fails ?ts' fresh)) =
        invocations fresh @ tap_invs linux_host ?ts'"
    and e: "fst (install linux_host sh_item_fails ?c ?ps' fresh) = Inr True \<and>
      invocations (snd (install linux_host sh_item_fails ?c ?ps' fresh)) =
        install_invs linux_host sh_item_fails ?c (invocations fresh) ?ps'"
    and f: "fst (install_bundle linux_host sh_item_fails ?fs' fresh) = Inr True \<and>
      invocations (snd (install_bundle linux_host sh_item_fails ?fs' fresh)) =
        invocations fresh @ bundle_invs linux_host ?fs'"
    by blast+
  from a b c d e f i1 i2 show ?thesis
    by (simp add: tap_invs_def bundle_invs_def del: install_invs.simps tap.simps
          install.simps install_bundle.simps)
qed



text \<open>
  C9 as stated fails: with two taps of which the first fails, \<open>_tap\<close> returns false and the
  command of the second tap was never run; the same for two bundle files.
\<close>

theorem tap_and_bundle_stop_counterexample:
  "fst (tap linux_host (sh_fails_on [env_prefix linux_host @ tap_cmd ''a'']) [''a'', ''b''] fresh)
     = Inr False \<and>
   invoke linux_host (tap_cmd ''b'') \<notin>
     set (invocations
       (snd (tap linux_host (sh_fails_on [env_prefix linux_host @ tap_cmd ''a''])
          [''a'', ''b''] fresh))) \<and>
   fst (install_bundle linux_host (sh_fails_on [env_prefix linux_host @ bundle_cmd ''Brewfile.a''])
          [''Brewfile.a'', ''Brewfile.b''] fresh) = Inr False \<and>
   invoke linux_host (bundle_cmd ''Brewfile.b'') \<notin>
     set (invocations
       (snd (install_bundle linux_host
          (sh_fails_on [env_prefix linux_host @ bundle_cmd ''Brewfile.a''])
          [''Brewfile.a'', ''Brewfile.b''] fresh)))"
  by (simp add: run_cmd_default env_prefix_no_nul sh_fails_on_def fresh_def invoke_def cmd_defs)

text \<open>
  C9, amended. In the tap and bundle-file paths, as in the package-install path, a failure
  on one item aborts the rest of the list. When the items before an item succeed, each after
  the invocations the run has made when it reaches it, and the item itself then fails (for a
  package: its version query and then its install command), the handler returns false, the
  invocations made end with those of the failing item, and the items that follow count for
  nothing: result, invocations and log are those of the list cut after the failing item.
\<close>

theorem failure_aborts_remaining_items:
  "((\<forall>j<length pre. succeeds sh (invocations w @ tap_invs self (take j pre))
        (invoke self (tap_cmd (pre ! j)))) \<and>
    fails sh (invocations w @ tap_invs self pre) (invoke self (tap_cmd x)) \<longrightarrow>
      tap self sh (pre @ x # post) w = tap self sh (pre @ [x]) w \<and>
      fst (tap self sh (pre @ x # post) w) = Inr False \<and>
      invocations (snd (tap self sh (pre @ x # post) w)) =
        invocations w @ tap_invs self (pre @ [x])) \<and>
   ((\<forall>j<length pre. succeeds sh (invocations w @ bundle_invs self (take j pre))
        (invoke self (bundle_cmd (pre ! j)))) \<and>
    fails sh (invocations w @ bundle_invs self pre) (invoke self (bundle_cmd x)) \<longrightarrow>
      install_bundle self sh (pre @ x # post) w = install_bundle self sh (pre @ [x]) w \<and>
      fst (install_bundle self sh (pre @ x # post) w) = Inr False \<and>
      invocations (snd (install_bundle self sh (pre @ x # post) w)) =
        invocations w @ bundle_invs self (pre @ [x])) \<and>
   ((\<forall>j<length pre. package_succeeds self sh c
        (install_invs self sh c (invocations w) (take j pre)) (pre ! j)) \<and>
    package_fails self sh c (install_invs self sh c (invocations w) pre) x \<longrightarrow>
      install self sh c (pre @ x # post) w = install self sh c (pre @ [x]) w \<and>
      fst (install self sh c (pre @ x # post) w) = Inr False \<and>
      invocations (snd (install self sh c (pre @ x # post) w)) =
        install_invs self sh c (invocations w) pre @
          [invoke self (query_cmd c x), invoke self (install_pkg_cmd c x)])"
  using tap_run_stops [of pre sh w self x post] install_bundle_run_stops [of pre sh w self x post]
    install_run_stops [of pre self sh c w x post]
  by blast

theorem failure_aborts_remaining_items_witness:
  "tap linux_host sh_item_fails ([''a''] @ ''b'' # [''c'', ''d'']) fresh =
     tap linux_host sh_item_fails ([''a''] @ [''b'']) fresh \<and>
   fst (tap linux_host sh_item_fails ([''a''] @ ''b'' # [''c'', ''d'']) fresh) = Inr False \<and>
   invocations (snd (tap linux_host sh_item_fails ([''a''] @ ''b'' # [''c'', ''d'']) fresh)) =
     [invoke linux_host (tap_cmd ''a''), invoke linux_host (tap_cmd ''b'')] \<and>
   install_bundle linux_host sh_item_fails
       ([''Brewfile.a''] @ ''Brewfile.b'' # [''Brewfile.c'']) fresh =
     install_bundle linux_host sh_item_fails ([''Brewfile.a''] @ [''Brewfile.b'']) fresh \<and>
   fst (install_bundle linux_host sh_item_fails
          ([''Brewfile.a''] @ ''Brewfile.b'' # [''Brewfile.c'']) fresh) = Inr False \<and>
   invocations (snd (install_bundle linux_host sh_item_fails
          ([''Brewfile.a''] @ ''Brewfile.b'' # [''Brewfile.c'']) fresh)) =
     [invoke linux_host (bundle_cmd ''Brewfile.a''), invoke linux_host (bundle_cmd ''Brewfile.b'')] \<and>
   install linux_host sh_item_fails ''brew install'' ([''git''] @ ''curl'' # [''wget'']) fresh =
     install linux_host sh_item_fails ''brew install'' ([''git''] @ [''curl'']) fresh \<and>
   fst (install linux_host sh_item_fails ''brew install'' ([''git''] @ ''curl'' # [''wget''])
          fresh) = Inr False \<and>
   invocations (snd (install linux_host sh_item_fails ''brew install''
          ([''git''] @ ''curl'' # [''wget'']) fresh)) =
     [invoke linux_host (query_cmd ''brew install'' ''git''),
      invoke linux_host (query_cmd ''brew install'' ''curl''),
      invoke linux_host (install_pkg_cmd ''brew install'' ''curl'')]"
proof -
  let ?c = "''brew install''"
  have t1: "\<forall>j<length [''a'']. succeeds sh_item_fails
              (invocations fresh @ tap_invs linux_host (take j [''a'']))
              (invoke linux_host (tap_cmd ([''a''] ! j)))"
    by (simp add: item_simps)
  have t2: "fails sh_item_fails (invocations fresh @ tap_invs linux_host [''a''])
              (invoke linux_host (tap_cmd ''b''))"
    by (simp add: item_simps)
  have f1: "\<forall>j<length [''Brewfile.a'']. succeeds sh_item_fails
              (invocations fresh @ bundle_invs linux_host (take j [''Brewfile.a'']))
              (invoke linux_host (bundle_cmd ([''Brewfile.a''] ! j)))"
    by (simp add: item_simps)
  have f2: "fails sh_item_fails (invocations fresh @ bundle_invs linux_host [''Brewfile.a''])
              (invoke linux_host (bundle_cmd ''Brewfile.b''))"
    by (simp add: item_simps)
  have p1: "\<forall>j<length [''git'']. package_succeeds linux_host sh_item_fails ?c
              (install_invs linux_host sh_item_fails ?c (invocations fresh) (take j [''git'']))
              ([''git''] ! j)"
    by (simp add: item_simps)
  have p2: "package_fails linux_host sh_item_fails ?c
              (install_invs linux_host sh_item_fails ?c (invocations fresh) [''git'']) ''curl''"
    by (simp add: item_simps)
  have i1: "install_invs linux_host sh_item_fails ?c [] [''git''] =
              [invoke linux_host (query_cmd ?c ''git'')]"
    by (simp add: item_simps)
  from failure_aborts_remaining_items
    [where self = linux_host and sh = sh_item_fails and w = fresh and pre = "[''a'']"
       and x = "''b''" and post = "[''c'', ''d'']"] t1 t2
  have a: "tap linux_host sh_item_fails ([''a''] @ ''b'' # [''c'', ''d'']) fresh =
             tap linux_host sh_item_fails ([''a''] @ [''b'']) fresh \<and>
           fst (tap linux_host sh_item_fails ([''a''] @ ''b'' # [''c'', ''d'']) fresh) = Inr False \<and>
           invocations (snd (tap linux_host sh_item_fails ([''a''] @ ''b'' # [''c'', ''d'']) fresh)) =
             invocations fresh @ tap_invs linux_host ([''a''] @ [''b''])"
    by blast
  from failure_aborts_remaining_items
    [where self = linux_host and sh = sh_item_fails and w = fresh and pre = "[''Brewfile.a'']"
       and x = "''Brewfile.b''" and post = "[''Brewfile.c'']"] f1 f2
  have b: "install_bundle linux_host sh_item_fails
               ([''Brewfile.a''] @ ''Brewfile.b'' # [''Brewfile.c'']) fresh =
             install_bundle linux_host sh_item_fails ([''Brewfile.a''] @ [''Brewfile.b'']) fresh \<and>
           fst (install_bundle linux_host sh_item_fails
                  ([''Brewfile.a''] @ ''Brewfile.b'' # [''Brewfile.c'']) fresh) = Inr False \<and>
           invocations (snd (install_bundle linux_host sh_item_fails
                  ([''Brewfile.a''] @ ''Brewfile.b'' # [''Brewfile.c'']) fresh)) =
             invocations fresh @ bundle_invs linux_host ([''Brewfile.a''] @ [''Brewfile.b''])"
    by blast
  from failure_aborts_remaining_items
    [where self = linux_host and sh = sh_item_fails and w = fresh and pre = "[''git'']"
       and x = "''curl''" and post = "[''wget'']" and c = ?c] p1 p2
  have c: "install linux_host sh_item_fails ?c ([''git''] @ ''curl'' # [''wget'']) fresh =
             install linux_host sh_item_fails ?c ([''git''] @ [''curl'']) fresh \<and>
           fst (install linux_host sh_item_fails ?c ([''git''] @ ''curl'' # [''wget'']) fresh)
             = Inr False \<and>
           invocations (snd (install linux_host sh_item_fails ?c
                  ([''git''] @ ''curl'' # [''wget'']) fresh)) =
             install_invs linux_host sh_item_fails ?c (invocations fresh) [''git''] @
               [invoke linux_host (query_cmd ?c ''curl''),
                invoke linux_host (install_pkg_cmd ?c ''curl'')]"
    by blast
  have a': "invocations fresh @ tap_invs linux_host ([''a''] @ [''b'']) =
              [invoke linux_host (tap_cmd ''a''), invoke linux_host (tap_cmd ''b'')]"
    and b': "invocations fresh @ bundle_invs linux_host ([''Brewfile.a''] @ [''Brewfile.b'']) =
              [invoke linux_host (bundle_cmd ''Brewfile.a''),
               invoke linux_host (bundle_cmd ''Brewfile.b'')]"
    and c': "install_invs linux_host sh_item_fails ?c (invocations fresh) [''git''] @
               [invoke linux_host (query_cmd ?c ''curl''),
                invoke linux_host (install_pkg_cmd ?c ''curl'')] =
             [invoke linux_host (query_cmd ?c ''git''), invoke linux_host (query_cmd ?c ''curl''),
              invoke linux_host (install_pkg_cmd ?c ''curl'')]"
    using i1 by (simp_all add: tap_invs_def bundle_invs_def del: install_invs.simps)
  from a b c show ?thesis unfolding a' b' c' by blast
qed

section \<open>Exceptions that leave handle\<close>

text \<open>
  Off macOS every call of \<open>_run_cmd\<close> during \<open>handle\<close> sits in a \<open>try\<close>: no
  CalledProcessError leaves \<open>handle\<close>, whatever the directive, the data and the shell.
\<close>

lemma handle_off_macos_catches:
  assumes "\<not> is_macos self"
  shows "fst (handle self sh d data w) \<noteq> Inl (CalledProcessError c rc)"
proof -
  obtain r w1 where e: "ensure_brew self sh w = (r, w1)"
    by (cases "ensure_brew self sh w") auto
  from ensure_brew_contained [of w self sh] e
  have r: "r \<noteq> Inl (CalledProcessError c rc)"
    by (auto simp add: contained_def)
  from dispatch_contained [of w1 self sh d data]
  have "fst (dispatch self sh d data w1) \<noteq> Inl (CalledProcessError c rc)"
    by (auto simp add: contained_def)
  with assms e r show ?thesis
    by (cases r) (auto simp add: handle_def required_tap_def)
qed

text \<open>
  On macOS the required tap of line 57 is called outside any \<open>try\<close>. When it exits non-zero
  the CalledProcessError leaves \<open>handle\<close>: nothing is logged beyond the command itself and no
  handler runs.
\<close>

lemma handle_required_tap_raises:
  assumes "is_macos self" and "can_handle self d"
    and "ensure_brew self sh w = (Inr (), w1)"
    and "fails sh (invocations w1) (invoke self ''brew tap homebrew/cask'')"
  shows "\<exists>rc. handle self sh d data w =
           (Inl (CalledProcessError (env_prefix self @ ''brew tap homebrew/cask'') rc),
            ran self ''brew tap homebrew/cask'' w1)"
  using assms run_cmd_fails [OF assms(4)]
  by (auto simp add: handle_def required_tap_def)

text \<open>
  C1 asks that a non-zero exit status of any subprocess run during \<open>handle\<close> be caught where
  the call is made, logged as a warning and turned into a false return, the required tap of
  macOS included, so that no CalledProcessError reaches the host. The code does this at every
  call but the required tap. Evaluated on an Apple-silicon Mac whose shell fails exactly
  \<open>brew tap homebrew/cask\<close>, \<open>handle("brew", ["git"])\<close> ends in that CalledProcessError after
  two invocations; the log holds the two command lines and no warning, and nothing was asked
  about \<open>git\<close>.
\<close>

theorem required_tap_failure_escapes_handle:
  "handle macos_arm64 (sh_fails_on [env_prefix macos_arm64 @ ''brew tap homebrew/cask''])
      ''brew'' [''git''] fresh =
     (Inl (CalledProcessError (env_prefix macos_arm64 @ ''brew tap homebrew/cask'') 1),
      \<lparr>invocations =
         [(invoke macos_arm64 ''hash brew'')\<lparr>capture_output := False\<rparr>,
          invoke macos_arm64 ''brew tap homebrew/cask''],
       log =
         [(Lowinfo, env_prefix macos_arm64 @ ''hash brew''),
          (Lowinfo, env_prefix macos_arm64 @ ''brew tap homebrew/cask'')]\<rparr>)"
  by (simp add: handle_defs run_cmd_hash run_cmd_default env_prefix_no_nul sh_fails_on_def
        macos_arm64_def fresh_def ran_def invoke_def)

section \<open>The command lines of the package handler\<close>

text \<open>
  C2 asks for \<open>brew install --cask p\<close> and \<open>brew ls --versions --cask p\<close> under the cask
  directive and for \<open>brew install p\<close> under the formula directive, with \<open>--cask\<close> at most once
  in a command. Line 122 appends the cask flag to an install command that already holds it
  (line 65), and appends the empty flag and a blank under the formula directive. Evaluated
  with a package whose version query fails: the cask is installed with
  \<open>brew install --cask --cask firefox\<close>, the formula with \<open>brew install  git\<close> (two blanks),
  and the formula's version query is \<open>brew ls --versions  git\<close>. Only the cask's version
  query has the form the claim gives.
\<close>

theorem cask_install_repeats_flag:
  "map shell_cmd (invocations (snd
      (handle macos_arm64 (sh_fails_on [env_prefix macos_arm64 @ ''brew ls --versions --cask firefox''])
         ''cask'' [''firefox''] fresh))) =
     [env_prefix macos_arm64 @ ''hash brew'',
      env_prefix macos_arm64 @ ''brew tap homebrew/cask'',
      env_prefix macos_arm64 @ ''brew ls --versions --cask firefox'',
      env_prefix macos_arm64 @ ''brew install --cask --cask firefox''] \<and>
   map shell_cmd (invocations (snd
      (handle linux_host (sh_fails_on [env_prefix linux_host @ ''brew ls --versions  git''])
         ''brew'' [''git''] fresh))) =
     [env_prefix linux_host @ ''hash brew'',
      env_prefix linux_host @ ''brew ls --versions  git'',
      env_prefix linux_host @ ''brew install  git'']"
  by (simp add: handle_defs Let_def run_cmd_hash run_cmd_default env_prefix_no_nul
        sh_fails_on_def macos_arm64_def linux_host_def fresh_def ran_def invoke_def cmd_defs)

section \<open>The environment prefix\<close>

lemma env_prefix_linux:
  \<open>env_prefix linux_host =
     ''eval "$({'' @
       single_quoted ''HOMEBREW_PREFIX'' @ '': '' @
         single_quoted ''/home/linuxbrew/.linuxbrew'' @ '', '' @
       single_quoted ''HOMEBREW_CELLAR'' @ '': '' @
         single_quoted ''/home/linuxbrew/.linuxbrew/Cellar'' @ '', '' @
       single_quoted ''HOMEBREW_REPOSITORY'' @ '': '' @
         single_quoted ''/home/linuxbrew/.linuxbrew'' @ '', '' @
       single_quoted ''PATH'' @ '': '' @
         single_quoted ''/home/linuxbrew/.linuxbrew/bin:/home/linuxbrew/.linuxbrew/sbin${PATH+:$PATH}'' @ '', '' @
       single_quoted ''MANPATH'' @ '': '' @
         single_quoted ''/home/linuxbrew/.linuxbrew/share/man${MANPATH+:$MANPATH}:'' @ '', '' @
       single_quoted ''INFOPATH'' @ '': '' @
         single_quoted ''/home/linuxbrew/.linuxbrew/share/info:${INFOPATH:-}'' @
     ''})" && ''\<close>
  by (simp add: env_prefix_def str_dict_def homebrew_envs_def linux_host_def repr_str_def
        repr_char_def single_quoted_def Let_def)

text \<open>
  C3 asks that a command run with the environment enabled be prefixed by an expression that
  assigns the six variables. The command is prefixed, and the prefix names the six variables
  with values built from the base path, but what line 71 interpolates is the dictionary
  itself, so the command substitution holds Python's rendering of a dictionary
  (\<open>{'HOMEBREW_PREFIX': '/home/linuxbrew/.linuxbrew', ...}\<close>) and not the assignments
  that \<open>brew shellenv\<close> prints, which the comment of line 24 announces. The prefix holds no
  \<open>=\<close> at all, so no word of it is an assignment.
\<close>

theorem env_prefix_is_a_dictionary_literal:
  \<open>shell_cmd (last (invocations (snd
       (run_cmd linux_host (sh_fails_on []) ''brew update'' True True fresh)))) =
     ''eval "$({'' @
       single_quoted ''HOMEBREW_PREFIX'' @ '': '' @
         single_quoted ''/home/linuxbrew/.linuxbrew'' @ '', '' @
       single_quoted ''HOMEBREW_CELLAR'' @ '': '' @
         single_quoted ''/home/linuxbrew/.linuxbrew/Cellar'' @ '', '' @
       single_quoted ''HOMEBREW_REPOSITORY'' @ '': '' @
         single_quoted ''/home/linuxbrew/.linuxbrew'' @ '', '' @
       single_quoted ''PATH'' @ '': '' @
         single_quoted ''/home/linuxbrew/.linuxbrew/bin:/home/linuxbrew/.linuxbrew/sbin${PATH+:$PATH}'' @ '', '' @
       single_quoted ''MANPATH'' @ '': '' @
         single_quoted ''/home/linuxbrew/.linuxbrew/share/man${MANPATH+:$MANPATH}:'' @ '', '' @
       single_quoted ''INFOPATH'' @ '': '' @
         single_quoted ''/home/linuxbrew/.linuxbrew/share/info:${INFOPATH:-}'' @
     ''})" && brew update'' \<and>
   CHR ''='' \<notin> set (env_prefix linux_host)\<close>
  by (simp add: run_cmd_default env_prefix_no_nul sh_fails_on_def fresh_def ran_def invoke_def
        env_prefix_linux single_quoted_def)

section \<open>The bootstrap\<close>

text \<open>
  \<open>_bootstrap_brew\<close> catches every CalledProcessError (\<open>bootstrap_brew_contained\<close>). It
  runs the install script once, without the environment prefix, and \<open>brew update\<close> only
  after the script succeeded; a failure of either is logged as a warning.
\<close>

lemma bootstrap_brew_script_fails:
  assumes "sh (invocations w)
             \<lparr>shell_cmd = install_script, capture_output = True, cwd = base_directory self\<rparr>
           = Exit rc" and "rc \<noteq> 0"
  shows "fst (bootstrap_brew self sh w) = Inr () \<and>
         invocations (snd (bootstrap_brew self sh w)) =
           invocations w @
             [\<lparr>shell_cmd = install_script, capture_output = True, cwd = base_directory self\<rparr>] \<and>
         log (snd (bootstrap_brew self sh w)) =
           log w @ [(Lowinfo, install_script), (Warning, ''Brew could not be installed'')]"
  using assms
  by (simp add: bootstrap_brew_def run_cmd_def Let_def logw_def install_script_def
        install_url_def)

lemma bootstrap_brew_script_succeeds:
  assumes "sh (invocations w)
             \<lparr>shell_cmd = install_script, capture_output = True, cwd = base_directory self\<rparr>
           = Exit 0"
    and "status sh
           (invocations w @
              [\<lparr>shell_cmd = install_script, capture_output = True, cwd = base_directory self\<rparr>])
           (invoke self ''brew update'') = Some rc"
  shows "fst (bootstrap_brew self sh w) = Inr () \<and>
         invocations (snd (bootstrap_brew self sh w)) =
           invocations w @
             [\<lparr>shell_cmd = install_script, capture_output = True, cwd = base_directory self\<rparr>,
              invoke self ''brew update''] \<and>
         log (snd (bootstrap_brew self sh w)) =
           log w @ [(Lowinfo, install_script), (Info, ''Updating brew''),
                    (Lowinfo, env_prefix self @ ''brew update'')] @
             (if rc = 0 then [] else [(Warning, ''Brew could not be updated'')])"
proof -
  let ?i = "\<lparr>shell_cmd = install_script, capture_output = True, cwd = base_directory self\<rparr>"
  let ?w1 = "w\<lparr>log := log w @ [(Lowinfo, install_script)], invocations := invocations w @ [?i]\<rparr>"
  from assms(1) have a: "run_cmd self sh install_script True False w = (Inr (), ?w1)"
    by (simp add: run_cmd_def Let_def logw_def install_script_def install_url_def)
  from assms(2) have "status sh (invocations (logw Info ''Updating brew'' ?w1))
                        (invoke self ''brew update'') = Some rc"
    by simp
  from run_cmd_status [OF this] a show ?thesis
    by (simp add: bootstrap_brew_def ran_def logw_def)
qed

text \<open>
  Off macOS \<open>handle\<close> goes on to the handler of the directive after the bootstrap, whatever
  the bootstrap did.
\<close>

lemma handle_after_failed_check_off_macos:
  assumes "\<not> is_macos self" and "can_handle self d"
    and "run_cmd self sh ''hash brew'' False True w = (Inl (CalledProcessError c rc), w1)"
    and "bootstrap_brew self sh (logw Info ''Brew not found, installing'' w1) = (Inr (), w2)"
  shows "handle self sh d data w = dispatch self sh d data w2"
  using assms by (simp add: handle_def ensure_brew_def required_tap_def)

text \<open>
  C8 asks, beside the above, that \<open>handle\<close> go on to the directive's own commands whatever
  the outcome of the bootstrap. On macOS the required tap of line 57 stands between the two,
  outside any \<open>try\<close>. Evaluated on an Apple-silicon Mac where the package manager is absent
  and cannot be installed (every command exits with 127): \<open>hash brew\<close> fails, the install
  script fails and is logged as a warning, then \<open>brew tap homebrew/cask\<close> fails and its
  CalledProcessError leaves \<open>handle("brewfile", ["Brewfile"])\<close>; \<open>brew bundle\<close> is never run.
\<close>

theorem bootstrap_failure_then_handle_raises:
  "fst (handle macos_arm64 sh_nothing_works ''brewfile'' [''Brewfile''] fresh) =
     Inl (CalledProcessError (env_prefix macos_arm64 @ ''brew tap homebrew/cask'') 127) \<and>
   map shell_cmd (invocations (snd
      (handle macos_arm64 sh_nothing_works ''brewfile'' [''Brewfile''] fresh))) =
     [env_prefix macos_arm64 @ ''hash brew'', install_script,
      env_prefix macos_arm64 @ ''brew tap homebrew/cask''] \<and>
   log (snd (handle macos_arm64 sh_nothing_works ''brewfile'' [''Brewfile''] fresh)) =
     [(Lowinfo, env_prefix macos_arm64 @ ''hash brew''),
      (Info, ''Brew not found, installing''),
      (Lowinfo, install_script),
      (Warning, ''Brew could not be installed''),
      (Lowinfo, env_prefix macos_arm64 @ ''brew tap homebrew/cask'')]"
  by (simp add: handle_defs Let_def run_cmd_hash run_cmd_default env_prefix_no_nul
        sh_nothing_works_def bootstrap_brew_def run_cmd_def logw_def install_script_def
        install_url_def macos_arm64_def fresh_def ran_def invoke_def cmd_defs)

section \<open>Empty lists\<close>

text \<open>
  On an empty list each handler returns true and leaves the world as it was, and off macOS
  \<open>handle\<close> returns true on empty data for every supported directive, once the check for
  the binary is through.
\<close>

lemma handlers_on_empty_list:
  "tap self sh [] w = (Inr True, w)"
  "install self sh c [] w = (Inr True, w)"
  "install_bundle self sh [] w = (Inr True, w)"
  by simp_all

lemma handle_empty_off_macos:
  assumes "\<not> is_macos self" and "can_handle self d"
    and "ensure_brew self sh w = (Inr (), w1)"
  shows "fst (handle self sh d [] w) = Inr (Some True)"
  using assms
  by (auto simp add: handle_def required_tap_def dispatch_def some_result_def
        process_data_def Let_def can_handle_def tap_directive_def brew_directive_def
        brewfile_directive_def cask_directive_def)

text \<open>
  C10 concludes from the handlers that \<open>handle\<close> on a supported directive and empty data
  reports success. On macOS the required tap of line 57 runs before the handler, outside
  any \<open>try\<close>: evaluated on an Apple-silicon Mac whose shell fails exactly
  \<open>brew tap homebrew/cask\<close>, \<open>handle("tap", [])\<close> raises that CalledProcessError and reports
  nothing.
\<close>

theorem handle_empty_data_raises:
  "fst (handle macos_arm64 (sh_fails_on [env_prefix macos_arm64 @ ''brew tap homebrew/cask''])
      ''tap'' [] fresh) =
     Inl (CalledProcessError (env_prefix macos_arm64 @ ''brew tap homebrew/cask'') 1)"
  by (simp add: handle_defs Let_def run_cmd_hash run_cmd_default env_prefix_no_nul
        sh_fails_on_def macos_arm64_def fresh_def ran_def invoke_def)

end
